theory Spec2Isabelle
  imports Main "HOL-Library.Word" "HOL-Library.Sublist"
begin

section \<open>JavaScript strings\<close>

text \<open>
  A JavaScript string is a sequence of 16-bit code units, and every string operation of
  the component (\<^verbatim>\<open>split\<close>, \<^verbatim>\<open>trim\<close>, \<^verbatim>\<open>join\<close>, \<^verbatim>\<open>includes\<close>, the regular expressions
  without the \<^verbatim>\<open>u\<close> flag) works on code units. A literal is written \<open>js ''abc''\<close>.
\<close>

type_synonym code_unit = "16 word"
type_synonym jsstring = "code_unit list"

definition js :: "string \<Rightarrow> jsstring" where
  "js s = map of_char s"

text \<open>
  The class \<^verbatim>\<open>\s\<close> of a regular expression and the characters removed by \<^verbatim>\<open>trim()\<close> are
  the same set: ECMAScript's WhiteSpace and LineTerminator code points.
\<close>

definition isWhiteSpace :: "code_unit \<Rightarrow> bool" where
  "isWhiteSpace c \<longleftrightarrow>
     c = 0x0009 \<or> c = 0x000A \<or> c = 0x000B \<or> c = 0x000C \<or> c = 0x000D \<or> c = 0x0020 \<or>
     c = 0x00A0 \<or> c = 0x1680 \<or> (0x2000 \<le> c \<and> c \<le> 0x200A) \<or> c = 0x2028 \<or>
     c = 0x2029 \<or> c = 0x202F \<or> c = 0x205F \<or> c = 0x3000 \<or> c = 0xFEFF"

text \<open>The class \<^verbatim>\<open>\d\<close>: the ASCII digits.\<close>

definition isDigit :: "code_unit \<Rightarrow> bool" where
  "isDigit c \<longleftrightarrow> 0x30 \<le> c \<and> c \<le> 0x39"

text \<open>The class \<^verbatim>\<open>[A-Za-z0-9\-\/]\<close>.\<close>

definition isNumberTail :: "code_unit \<Rightarrow> bool" where
  "isNumberTail c \<longleftrightarrow>
     (0x41 \<le> c \<and> c \<le> 0x5A) \<or> (0x61 \<le> c \<and> c \<le> 0x7A) \<or> (0x30 \<le> c \<and> c \<le> 0x39) \<or>
     c = 0x2D \<or> c = 0x2F"

text \<open>\<^verbatim>\<open>s.trim()\<close>: white space removed at both ends.\<close>

definition trim :: "jsstring \<Rightarrow> jsstring" where
  "trim s = rev (dropWhile isWhiteSpace (rev (dropWhile isWhiteSpace s)))"

text \<open>
  \<^verbatim>\<open>s.split(',')\<close> with a one-character separator: the pieces between the separators, the
  empty ones included; the empty string gives one empty piece.
\<close>

fun splitOn_from :: "code_unit \<Rightarrow> jsstring \<Rightarrow> jsstring \<Rightarrow> jsstring list" where
  "splitOn_from sep cur [] = [cur]"
| "splitOn_from sep cur (c # cs) =
     (if c = sep then cur # splitOn_from sep [] cs else splitOn_from sep (cur @ [c]) cs)"

definition splitOn :: "code_unit \<Rightarrow> jsstring \<Rightarrow> jsstring list" where
  "splitOn sep s = splitOn_from sep [] s"

text \<open>
  \<^verbatim>\<open>s.split(/\s+/)\<close>: the string is cut at every maximal run of white space. A run at the
  start or at the end leaves an empty piece there, and the empty string gives one empty
  piece (the pattern does not match the empty string).
\<close>

function splitWhitespace_from :: "jsstring \<Rightarrow> jsstring \<Rightarrow> jsstring list" where
  "splitWhitespace_from cur [] = [cur]"
| "splitWhitespace_from cur (c # cs) =
     (if isWhiteSpace c then cur # splitWhitespace_from [] (dropWhile isWhiteSpace cs)
      else splitWhitespace_from (cur @ [c]) cs)"
  by pat_completeness auto
termination
  by (relation "measure (\<lambda>(cur, s). length s)")
     (auto simp: length_dropWhile_le less_Suc_eq_le)

definition splitWhitespace :: "jsstring \<Rightarrow> jsstring list" where
  "splitWhitespace s = splitWhitespace_from [] s"

text \<open>\<^verbatim>\<open>parts.join(sep)\<close>.\<close>

fun join :: "jsstring \<Rightarrow> jsstring list \<Rightarrow> jsstring" where
  "join sep [] = []"
| "join sep [p] = p"
| "join sep (p # q # ps) = p @ sep @ join sep (q # ps)"

text \<open>\<^verbatim>\<open>s.includes(t)\<close>: \<open>t\<close> occurs in \<open>s\<close> as a contiguous run.\<close>

fun includes_js :: "jsstring \<Rightarrow> jsstring \<Rightarrow> bool" where
  "includes_js [] t \<longleftrightarrow> t = []"
| "includes_js (c # cs) t \<longleftrightarrow> prefix t (c # cs) \<or> includes_js cs t"

text \<open>
  Reading an array element: \<^verbatim>\<open>xs[i]\<close> is \<^verbatim>\<open>undefined\<close> out of range. The model makes every
  such read an outcome of its own, and a method call on \<^verbatim>\<open>undefined\<close> a \<^verbatim>\<open>TypeError\<close>.
\<close>

datatype js_error = TypeError | UndefinedRead

definition element :: "'a list \<Rightarrow> int \<Rightarrow> 'a option" where
  "element xs i = (if 0 \<le> i \<and> i < int (length xs) then Some (xs ! nat i) else None)"

section \<open>The tokenizer\<close>

record parsed =
  street :: jsstring
  number :: "jsstring option"

text \<open>\<^verbatim>\<open>/^\d+[A-Za-z0-9\-\/]*$/.test(token)\<close>: the digits are matched greedily, then the tail class up to the end.\<close>

definition numericToken :: "jsstring \<Rightarrow> bool" where
  "numericToken token \<longleftrightarrow>
     takeWhile isDigit token \<noteq> [] \<and> list_all isNumberTail (dropWhile isDigit token)"

definition numericTokenIndices :: "jsstring list \<Rightarrow> nat list" where
  "numericTokenIndices tokens = filter (\<lambda>idx. numericToken (tokens ! idx)) [0..<length tokens]"

text \<open>\<^verbatim>\<open>input.split(',')[0].trim()\<close>, the head of the input.\<close>

definition withoutCommas :: "jsstring \<Rightarrow> js_error + jsstring" where
  "withoutCommas input =
     (case element (splitOn 0x2C input) 0 of
        None \<Rightarrow> Inl TypeError
      | Some first \<Rightarrow> Inr (trim first))"

definition extractStreetAndNumber :: "jsstring \<Rightarrow> js_error + parsed" where
  "extractStreetAndNumber input =
     (case withoutCommas input of
        Inl e \<Rightarrow> Inl e
      | Inr head \<Rightarrow>
          let tokens = splitWhitespace head;
              numericIdx = numericTokenIndices tokens
          in if length numericIdx \<ge> 2 then
               (case element numericIdx (int (length numericIdx) - 1) of
                  None \<Rightarrow> Inl UndefinedRead
                | Some houseNumberIdx \<Rightarrow>
                    (case element tokens (int houseNumberIdx) of
                       None \<Rightarrow> Inl UndefinedRead
                     | Some houseNumber \<Rightarrow>
                         Inr \<lparr>street = trim (join (js '' '') (take houseNumberIdx tokens)),
                              number = Some houseNumber\<rparr>))
             else if length numericIdx = 1 then
               (case element numericIdx 0 of
                  None \<Rightarrow> Inl UndefinedRead
                | Some numIdx \<Rightarrow>
                    if int numIdx = int (length tokens) - 1 \<and> numIdx > 0 then
                      (case element tokens (int numIdx) of
                         None \<Rightarrow> Inl UndefinedRead
                       | Some houseNumber \<Rightarrow>
                           Inr \<lparr>street = trim (join (js '' '') (take numIdx tokens)),
                                number = Some houseNumber\<rparr>)
                    else Inr \<lparr>street = head, number = None\<rparr>)
             else Inr \<lparr>street = head, number = None\<rparr>)"

section \<open>The formatter\<close>

text \<open>
  A geocoding result. Every field of the address object is optional, and the formatter
  also guards against a result without the address object.
\<close>

record address =
  house_number :: "jsstring option"
  road :: "jsstring option"
  suburb :: "jsstring option"
  city :: "jsstring option"
  town :: "jsstring option"
  village :: "jsstring option"
  municipality :: "jsstring option"
  city_district :: "jsstring option"
  state :: "jsstring option"
  postcode :: "jsstring option"
  country :: "jsstring option"

record nominatim_result =
  display_name :: jsstring
  lat :: jsstring
  lon :: jsstring
  address :: "address option"

text \<open>
  Truthiness of an optional string: \<^verbatim>\<open>undefined\<close>, \<^verbatim>\<open>null\<close> (both \<open>None\<close>) and the empty
  string are falsy. \<^verbatim>\<open>a || b\<close> is \<open>a\<close> when \<open>a\<close> is truthy and \<open>b\<close> otherwise, and a chain
  that ends in \<^verbatim>\<open>|| ''\<close> is a string.
\<close>

definition truthy :: "jsstring option \<Rightarrow> bool" where
  "truthy v = (case v of None \<Rightarrow> False | Some s \<Rightarrow> s \<noteq> [])"

definition or_js :: "jsstring option \<Rightarrow> jsstring option \<Rightarrow> jsstring option" where
  "or_js a b = (if truthy a then a else b)"

definition or_empty :: "jsstring option \<Rightarrow> jsstring" where
  "or_empty a = (case a of None \<Rightarrow> [] | Some s \<Rightarrow> s)"

text \<open>\<^verbatim>\<open>injected?.number\<close> and \<^verbatim>\<open>injected?.street\<close>.\<close>

definition injectedNumber :: "parsed option \<Rightarrow> jsstring option" where
  "injectedNumber injected = (case injected of None \<Rightarrow> None | Some h \<Rightarrow> number h)"

definition injectedStreet :: "parsed option \<Rightarrow> jsstring option" where
  "injectedStreet injected = (case injected of None \<Rightarrow> None | Some h \<Rightarrow> Some (street h))"

text \<open>The array \<^verbatim>\<open>parts\<close> that the formatter builds from the address object.\<close>

definition addressParts :: "address \<Rightarrow> parsed option \<Rightarrow> jsstring list" where
  "addressParts addr injected =
     (let streetOSM = or_empty (road addr);
          locality = or_empty (or_js (or_js (town addr) (suburb addr)) (village addr));
          municipal = or_empty (or_js (or_js (municipality addr) (city_district addr)) (city addr));
          stateName = or_empty (state addr);
          number0 = or_empty (house_number addr);
          num = (if truthy (injectedNumber injected)
                 then or_empty (injectedNumber injected) else number0);
          streetToUse = (if truthy (injectedStreet injected)
                         then or_empty (injectedStreet injected) else streetOSM)
      in (if streetToUse \<noteq> []
          then [if num \<noteq> [] then streetToUse @ js '' '' @ num else streetToUse] else [])
         @ (if locality \<noteq> [] then [locality] else [])
         @ (if municipal \<noteq> [] then [municipal] else [])
         @ (if stateName \<noteq> [] then [stateName] else []))"

definition formatArgentinianAddress :: "nominatim_result \<Rightarrow> parsed option \<Rightarrow> jsstring" where
  "formatArgentinianAddress result injected =
     (case address result of
        None \<Rightarrow> display_name result
      | Some addr \<Rightarrow>
          let formatted = trim (join (js '', '') (addressParts addr injected))
          in if formatted \<noteq> [] then formatted else display_name result)"

section \<open>Filtering and deduplicating the candidates\<close>

text \<open>
  The part of \<^verbatim>\<open>searchAddresses\<close> that turns the parsed results of a successful lookup into
  the list handed to \<^verbatim>\<open>setSuggestions\<close>.
\<close>

definition hasRoad :: "nominatim_result \<Rightarrow> bool" where
  "hasRoad r = (case address r of None \<Rightarrow> False | Some a \<Rightarrow> truthy (road a))"

definition formatAll :: "parsed \<Rightarrow> nominatim_result list \<Rightarrow> nominatim_result list" where
  "formatAll p rs = map (\<lambda>r. r\<lparr>display_name := formatArgentinianAddress r (Some p)\<rparr>) rs"

text \<open>The loop over \<^verbatim>\<open>mapped\<close> with the set \<^verbatim>\<open>seen\<close> and the array \<^verbatim>\<open>deduped\<close>.\<close>

fun dedupe :: "jsstring set \<Rightarrow> nominatim_result list \<Rightarrow> nominatim_result list \<Rightarrow> nominatim_result list" where
  "dedupe seen deduped [] = deduped"
| "dedupe seen deduped (m # ms) =
     (if display_name m \<notin> seen
      then dedupe (insert (display_name m) seen) (deduped @ [m]) ms
      else dedupe seen deduped ms)"

definition numberFilter :: "parsed \<Rightarrow> nominatim_result list \<Rightarrow> nominatim_result list \<Rightarrow> nominatim_result list" where
  "numberFilter p validResults mapped =
     (case number p of
        None \<Rightarrow> mapped
      | Some n \<Rightarrow>
          if n = [] then mapped
          else let kept = filter (\<lambda>s. includes_js (display_name s) n) mapped
               in if length kept = 0 then formatAll p validResults else kept)"

definition suggestionsFor :: "parsed \<Rightarrow> nominatim_result list \<Rightarrow> nominatim_result list" where
  "suggestionsFor p results =
     (let validResults = filter hasRoad results
      in if length validResults = 0 then []
         else dedupe {} [] (numberFilter p validResults (formatAll p validResults)))"

section \<open>The regex-based variant\<close>

text \<open>
  \<^verbatim>\<open>src/test-input/src/AddressAutocomplete.tsx\<close> holds another version of the two functions: a
  tokenizer that matches one regular expression against the head, and a formatter whose
  override is gated by a loose match of the street names. They are modelled here to state
  where the two versions differ.
\<close>

text \<open>
  The regular expression \<^verbatim>\<open>/^(.*?)(\b\d+[A-Za-z0-9\-\/]*)$/\<close>. The dot matches every code unit
  but a line terminator, \<^verbatim>\<open>\b\<close> holds where exactly one of the two neighbours is a word
  character \<^verbatim>\<open>[A-Za-z0-9_]\<close>, and the lazy first group grows one code unit at a time until
  the rest of the input, up to its end, matches the second group.
\<close>

definition isLineTerminator :: "code_unit \<Rightarrow> bool" where
  "isLineTerminator c \<longleftrightarrow> c = 0x000A \<or> c = 0x000D \<or> c = 0x2028 \<or> c = 0x2029"

definition isWordChar :: "code_unit \<Rightarrow> bool" where
  "isWordChar c \<longleftrightarrow>
     (0x41 \<le> c \<and> c \<le> 0x5A) \<or> (0x61 \<le> c \<and> c \<le> 0x7A) \<or> (0x30 \<le> c \<and> c \<le> 0x39) \<or> c = 0x5F"

definition wordBoundary :: "jsstring \<Rightarrow> jsstring \<Rightarrow> bool" where
  "wordBoundary before after \<longleftrightarrow>
     (before \<noteq> [] \<and> isWordChar (last before)) \<noteq> (after \<noteq> [] \<and> isWordChar (hd after))"

fun matchStreetNumber :: "jsstring \<Rightarrow> jsstring \<Rightarrow> (jsstring \<times> jsstring) option" where
  "matchStreetNumber before [] =
     (if wordBoundary before [] \<and> numericToken [] then Some (before, []) else None)"
| "matchStreetNumber before (c # cs) =
     (if wordBoundary before (c # cs) \<and> numericToken (c # cs) then Some (before, c # cs)
      else if isLineTerminator c then None
      else matchStreetNumber (before @ [c]) cs)"

text \<open>
  \<^verbatim>\<open>s.replace(/\d+.*/, '')\<close>: the text from the first digit up to the next line terminator (or
  the end) is removed.
\<close>

definition removeFromFirstDigit :: "jsstring \<Rightarrow> jsstring" where
  "removeFromFirstDigit s =
     takeWhile (\<lambda>c. \<not> isDigit c) s @
     dropWhile (\<lambda>c. \<not> isLineTerminator c) (dropWhile (\<lambda>c. \<not> isDigit c) s)"

definition extractStreetAndNumber_regex :: "jsstring \<Rightarrow> js_error + parsed" where
  "extractStreetAndNumber_regex input =
     (case withoutCommas input of
        Inl e \<Rightarrow> Inl e
      | Inr head \<Rightarrow>
          (case matchStreetNumber [] head of
             Some (group1, group2) \<Rightarrow>
               if trim group1 \<noteq> [] \<and> trim group2 \<noteq> []
               then Inr \<lparr>street = trim group1, number = Some (trim group2)\<rparr>
               else Inr \<lparr>street = trim (removeFromFirstDigit head), number = None\<rparr>
           | None \<Rightarrow> Inr \<lparr>street = trim (removeFromFirstDigit head), number = None\<rparr>))"

text \<open>
  The formatter of the same file takes the hint number only when the hint street and the
  record's road, both in lower case and non-empty, contain one another, and it uses the
  hint street only when the record has no road. \<^verbatim>\<open>toLowerCase\<close> is a parameter.
\<close>

definition addressParts_gated :: "(jsstring \<Rightarrow> jsstring) \<Rightarrow> address \<Rightarrow> parsed option \<Rightarrow> jsstring list" where
  "addressParts_gated toLowerCase addr injected =
     (let streetOSM = or_empty (road addr);
          locality = or_empty (or_js (or_js (town addr) (suburb addr)) (village addr));
          municipal = or_empty (or_js (or_js (municipality addr) (city_district addr)) (city addr));
          stateName = or_empty (state addr);
          number0 = or_empty (house_number addr);
          num = (if truthy (injectedNumber injected) then
                   (let userStreetLc = toLowerCase (or_empty (injectedStreet injected));
                        osmStreetLc = toLowerCase streetOSM
                    in if userStreetLc \<noteq> [] \<and> osmStreetLc \<noteq> [] \<and>
                          (includes_js osmStreetLc userStreetLc \<or> includes_js userStreetLc osmStreetLc)
                       then or_empty (injectedNumber injected) else number0)
                 else number0)
      in (if streetOSM \<noteq> []
          then [if num \<noteq> [] then streetOSM @ js '' '' @ num else streetOSM]
          else if truthy (injectedStreet injected)
          then [if truthy (injectedNumber injected)
                then or_empty (injectedStreet injected) @ js '' '' @ or_empty (injectedNumber injected)
                else or_empty (injectedStreet injected)]
          else [])
         @ (if locality \<noteq> [] then [locality] else [])
         @ (if municipal \<noteq> [] then [municipal] else [])
         @ (if stateName \<noteq> [] then [stateName] else []))"

definition formatArgentinianAddress_gated ::
    "(jsstring \<Rightarrow> jsstring) \<Rightarrow> nominatim_result \<Rightarrow> parsed option \<Rightarrow> jsstring" where
  "formatArgentinianAddress_gated toLowerCase result injected =
     (case address result of
        None \<Rightarrow> display_name result
      | Some addr \<Rightarrow>
          let formatted = trim (join (js '', '') (addressParts_gated toLowerCase addr injected))
          in if formatted \<noteq> [] then formatted else display_name result)"

section \<open>Properties of strings used in the statements\<close>

definition trimmed :: "jsstring \<Rightarrow> bool" where
  "trimmed s \<longleftrightarrow> s = [] \<or> (\<not> isWhiteSpace (hd s) \<and> \<not> isWhiteSpace (last s))"

fun noWhitespaceRun :: "jsstring \<Rightarrow> bool" where
  "noWhitespaceRun (a # b # cs) \<longleftrightarrow> \<not> (isWhiteSpace a \<and> isWhiteSpace b) \<and> noWhitespaceRun (b # cs)"
| "noWhitespaceRun cs \<longleftrightarrow> True"

definition cleanToken :: "jsstring \<Rightarrow> bool" where
  "cleanToken t \<longleftrightarrow> t \<noteq> [] \<and> (\<forall>c \<in> set t. \<not> isWhiteSpace c)"

text \<open>
  No two commas two positions apart: the shape that the text \<^verbatim>\<open>", , "\<close> would break.
\<close>

fun commasApart :: "jsstring \<Rightarrow> bool" where
  "commasApart (a # b # c # cs) \<longleftrightarrow> \<not> (a = 0x2C \<and> c = 0x2C) \<and> commasApart (b # c # cs)"
| "commasApart cs \<longleftrightarrow> True"

text \<open>
  The first occurrences of a list of results, said by position: the element at index \<open>i\<close>
  stays exactly when no earlier element has its \<open>display_name\<close>; the survivors keep the
  order of their indices.
\<close>

definition firstOccurrences :: "nominatim_result list \<Rightarrow> nominatim_result list" where
  "firstOccurrences ms =
     map (\<lambda>i. ms ! i)
       (filter (\<lambda>i. display_name (ms ! i) \<notin> display_name ` set (take i ms)) [0..<length ms])"

section \<open>Example records\<close>

text \<open>An address object with every field missing.\<close>

definition noFields :: address where
  "noFields = \<lparr>house_number = None, road = None, suburb = None, city = None, town = None,
     village = None, municipality = None, city_district = None, state = None,
     postcode = None, country = None\<rparr>"

text \<open>
  The record \<^verbatim>\<open>{road: "Av. Jos\'e Andr\'es L\'opez", houseNumber: "200", town: "Ze", state: "Buenos Aires"}\<close>;
  the accented letters are the code units \<open>0xE9\<close> and \<open>0xF3\<close>.
\<close>

definition lopez :: address where
  "lopez = \<lparr>house_number = Some (js ''200''),
     road = Some (js ''Av. Jos'' @ [0xE9] @ js '' Andr'' @ [0xE9] @ js ''s L'' @ [0xF3] @ js ''pez''),
     suburb = None, city = None, town = Some (js ''Ze''), village = None, municipality = None,
     city_district = None, state = Some (js ''Buenos Aires''), postcode = None, country = None\<rparr>"

section \<open>Strings: trimming, splitting and joining\<close>

lemma splitOn_from_hd:
  "splitOn_from sep cur s \<noteq> [] \<and> hd (splitOn_from sep cur s) = cur @ takeWhile (\<lambda>c. c \<noteq> sep) s"
  by (induction sep cur s rule: splitOn_from.induct) auto

lemma element_0: "xs \<noteq> [] \<Longrightarrow> element xs 0 = Some (hd xs)"
  by (cases xs) (auto simp: element_def)

lemma withoutCommas_eq:
  "withoutCommas input = Inr (trim (takeWhile (\<lambda>c. c \<noteq> 0x2C) input))"
  using splitOn_from_hd [of "0x2C" "[]" input]
  by (simp add: withoutCommas_def splitOn_def element_0)

lemma trimmed_trim: "trimmed (trim s)"
proof -
  let ?a = "dropWhile isWhiteSpace s"
  let ?b = "dropWhile isWhiteSpace (rev ?a)"
  show ?thesis
  proof (cases "?b = []")
    case True
    then show ?thesis by (simp add: trimmed_def trim_def)
  next
    case False
    then have a: "?a \<noteq> []" by (cases "?a = []") simp_all
    have l: "\<not> isWhiteSpace (hd ?b)" using False by (rule hd_dropWhile)
    have ha: "\<not> isWhiteSpace (hd ?a)" using a by (rule hd_dropWhile)
    obtain pre where pre: "rev ?a = pre @ ?b"
      by (metis takeWhile_dropWhile_id)
    then have "?a = rev ?b @ rev pre" by (metis rev_append rev_rev_ident)
    moreover have "rev ?b \<noteq> []" using False by simp
    ultimately have "hd ?a = hd (rev ?b)" by (metis hd_append2)
    with ha l False show ?thesis
      by (simp add: trimmed_def trim_def last_rev hd_rev)
  qed
qed

lemma trim_trimmed: "trimmed s \<Longrightarrow> trim s = s"
proof (cases "s = []")
  case True
  then show ?thesis by (simp add: trim_def)
next
  case False
  assume "trimmed s"
  with False have h: "\<not> isWhiteSpace (hd s)" and l: "\<not> isWhiteSpace (last s)"
    by (auto simp: trimmed_def)
  from False h have 1: "dropWhile isWhiteSpace s = s" by (cases s) auto
  from False l have 2: "dropWhile isWhiteSpace (rev s) = rev s"
    by (cases s rule: rev_cases) auto
  show ?thesis by (simp add: trim_def 1 2)
qed

lemma split_tokens_no_ws:
  "\<forall>c \<in> set cur. \<not> isWhiteSpace c \<Longrightarrow>
   \<forall>t \<in> set (splitWhitespace_from cur s). \<forall>c \<in> set t. \<not> isWhiteSpace c"
proof (induction cur s rule: splitWhitespace_from.induct)
  case (1 cur)
  then show ?case by simp
next
  case (2 cur c cs)
  show ?case
  proof (cases "isWhiteSpace c")
    case True
    have "\<forall>t \<in> set (splitWhitespace_from [] (dropWhile isWhiteSpace cs)). \<forall>c \<in> set t. \<not> isWhiteSpace c"
      using 2(1) [OF True] by simp
    with True 2(3) show ?thesis by simp
  next
    case False
    with 2(3) have "\<forall>c \<in> set (cur @ [c]). \<not> isWhiteSpace c" by simp
    then have "\<forall>t \<in> set (splitWhitespace_from (cur @ [c]) cs). \<forall>c \<in> set t. \<not> isWhiteSpace c"
      by (rule 2(2) [OF False])
    with False show ?thesis by simp
  qed
qed

lemma split_tokens_nonempty:
  "s = [] \<or> \<not> isWhiteSpace (last s) \<Longrightarrow> cur \<noteq> [] \<or> (s \<noteq> [] \<and> \<not> isWhiteSpace (hd s)) \<Longrightarrow>
   \<forall>t \<in> set (splitWhitespace_from cur s). t \<noteq> []"
proof (induction cur s rule: splitWhitespace_from.induct)
  case (1 cur)
  then show ?case by simp
next
  case (2 cur c cs)
  show ?case
  proof (cases "isWhiteSpace c")
    case True
    with 2 have cur: "cur \<noteq> []" by auto
    from True 2(3) have cs: "cs \<noteq> []" and lcs: "\<not> isWhiteSpace (last cs)"
      by (auto split: if_splits)
    let ?d = "dropWhile isWhiteSpace cs"
    have "?d \<noteq> []" using cs lcs
      by (metis dropWhile_eq_Nil_conv last_in_set)
    moreover then have "\<not> isWhiteSpace (hd ?d)" by (rule hd_dropWhile)
    moreover have "last ?d = last cs"
      by (metis calculation(1) last_appendR takeWhile_dropWhile_id)
    ultimately have "\<forall>t \<in> set (splitWhitespace_from [] ?d). t \<noteq> []"
      using 2(1) [OF True] lcs by simp
    with True cur show ?thesis by simp
  next
    case False
    have "cs = [] \<or> \<not> isWhiteSpace (last cs)" using 2(3) by (auto split: if_splits)
    then have "\<forall>t \<in> set (splitWhitespace_from (cur @ [c]) cs). t \<noteq> []"
      using 2(2) [OF False] by simp
    with False show ?thesis by simp
  qed
qed

lemma tokens_clean:
  assumes "trimmed s" and "s \<noteq> []"
  shows "\<forall>t \<in> set (splitWhitespace s). cleanToken t"
proof -
  from assms have "\<not> isWhiteSpace (hd s)" and "\<not> isWhiteSpace (last s)"
    by (simp_all add: trimmed_def)
  with assms(2) have "\<forall>t \<in> set (splitWhitespace_from [] s). t \<noteq> []"
    by (intro split_tokens_nonempty) simp_all
  moreover have "\<forall>t \<in> set (splitWhitespace_from [] s). \<forall>c \<in> set t. \<not> isWhiteSpace c"
    by (rule split_tokens_no_ws) simp
  ultimately show ?thesis
    by (simp add: cleanToken_def splitWhitespace_def)
qed

lemma splitWhitespace_Nil: "splitWhitespace [] = [[]]"
  by (simp add: splitWhitespace_def)

lemma js_space: "js '' '' = [0x20]"
  by (simp add: js_def)

lemma isWhiteSpace_space: "isWhiteSpace 0x20"
  by (simp add: isWhiteSpace_def)

lemma join_nonempty: "ts \<noteq> [] \<Longrightarrow> hd ts \<noteq> [] \<Longrightarrow> join sep ts \<noteq> [] \<and> hd (join sep ts) = hd (hd ts)"
  by (induction sep ts rule: join.induct) auto

lemma join_last: "ts \<noteq> [] \<Longrightarrow> last ts \<noteq> [] \<Longrightarrow> last (join sep ts) = last (last ts)"
proof (induction sep ts rule: join.induct)
  case (3 sep p q ps)
  then have "last (join sep (q # ps)) = last (last (q # ps))" by simp
  moreover have "join sep (q # ps) \<noteq> []"
    using 3(3) by (induction sep "q # ps" arbitrary: q ps rule: join.induct) auto
  ultimately show ?case by simp
qed auto

lemma trimmed_join:
  assumes "ts \<noteq> []" and "\<forall>t \<in> set ts. cleanToken t"
  shows "trimmed (join sep ts)" and "join sep ts \<noteq> []"
proof -
  from assms have "cleanToken (hd ts)" and "cleanToken (last ts)" by simp_all
  then have h: "hd ts \<noteq> []" and l: "last ts \<noteq> []"
    and hc: "\<not> isWhiteSpace (hd (hd ts))" and lc: "\<not> isWhiteSpace (last (last ts))"
    by (simp_all add: cleanToken_def)
  from join_nonempty [OF assms(1) h, of sep] join_last [OF assms(1) l, of sep] hc lc
  show "trimmed (join sep ts)" and "join sep ts \<noteq> []"
    by (auto simp: trimmed_def)
qed

lemma noWhitespaceRun_append:
  "\<forall>c \<in> set t. \<not> isWhiteSpace c \<Longrightarrow> noWhitespaceRun (t @ s) = noWhitespaceRun s"
proof (induction t)
  case Nil
  then show ?case by simp
next
  case (Cons a t)
  then have "noWhitespaceRun (t @ s) = noWhitespaceRun s" by simp
  moreover have "noWhitespaceRun (a # t @ s) = noWhitespaceRun (t @ s)"
    using Cons.prems by (cases "t @ s") auto
  ultimately show ?case by simp
qed

lemma noWhitespaceRun_clean: "\<forall>c \<in> set t. \<not> isWhiteSpace c \<Longrightarrow> noWhitespaceRun t"
  using noWhitespaceRun_append [of t "[]"] by simp

lemma noWhitespaceRun_join:
  "\<forall>t \<in> set ts. cleanToken t \<Longrightarrow> noWhitespaceRun (join (js '' '') ts)"
proof (induction "js '' ''" ts rule: join.induct)
  case 1
  then show ?case by simp
next
  case (2 p)
  then show ?case by (simp add: noWhitespaceRun_clean cleanToken_def)
next
  case (3 p q ps)
  then have ih: "noWhitespaceRun (join (js '' '') (q # ps))" by simp
  from 3(2) have "cleanToken q" by simp
  then have "join (js '' '') (q # ps) \<noteq> []" and "\<not> isWhiteSpace (hd (join (js '' '') (q # ps)))"
    using join_nonempty [of "q # ps" "js '' ''"] by (auto simp: cleanToken_def)
  then have "noWhitespaceRun (0x20 # join (js '' '') (q # ps))"
    using ih by (cases "join (js '' '') (q # ps)") auto
  moreover from 3(2) have "\<forall>c \<in> set p. \<not> isWhiteSpace c" by (simp add: cleanToken_def)
  ultimately show ?case
    by (simp add: noWhitespaceRun_append js_space)
qed

lemma numericToken_digit: "numericToken t \<Longrightarrow> t \<noteq> [] \<and> isDigit (hd t)"
  by (cases t) (auto simp: numericToken_def split: if_splits)

lemma set_numericTokenIndices:
  "set (numericTokenIndices ts) = {i. i < length ts \<and> numericToken (ts ! i)}"
  by (auto simp: numericTokenIndices_def)

lemma sorted_numericTokenIndices: "sorted_wrt (<) (numericTokenIndices ts)"
  by (simp add: numericTokenIndices_def sorted_wrt_filter)

lemma last_numericTokenIndices:
  assumes "numericTokenIndices ts \<noteq> []"
  shows "last (numericTokenIndices ts) < length ts"
    and "numericToken (ts ! last (numericTokenIndices ts))"
    and "\<forall>j. last (numericTokenIndices ts) < j \<and> j < length ts \<longrightarrow> \<not> numericToken (ts ! j)"
proof -
  let ?ix = "numericTokenIndices ts"
  from assms have "last ?ix \<in> set ?ix" by simp
  then show "last ?ix < length ts" and "numericToken (ts ! last ?ix)"
    by (simp_all add: set_numericTokenIndices)
  show "\<forall>j. last ?ix < j \<and> j < length ts \<longrightarrow> \<not> numericToken (ts ! j)"
  proof (intro allI impI notI)
    fix j assume j: "last ?ix < j \<and> j < length ts" and n: "numericToken (ts ! j)"
    then have "j \<in> set ?ix" by (simp add: set_numericTokenIndices)
    then obtain k where k: "k < length ?ix" "?ix ! k = j" by (auto simp: in_set_conv_nth)
    have "?ix ! k \<le> ?ix ! (length ?ix - 1)"
      using sorted_numericTokenIndices [of ts] k(1)
      by (cases "k = length ?ix - 1") (auto simp: sorted_wrt_iff_nth_less intro: less_imp_le)
    with k j assms show False by (simp add: last_conv_nth)
  qed
qed

lemma last_numericTokenIndices_pos:
  assumes "2 \<le> length (numericTokenIndices ts)"
  shows "0 < last (numericTokenIndices ts)"
proof -
  let ?ix = "numericTokenIndices ts"
  from assms have "?ix ! 0 < ?ix ! (length ?ix - 1)"
    using sorted_numericTokenIndices [of ts] by (simp add: sorted_wrt_iff_nth_less)
  moreover from assms have "?ix \<noteq> []" by auto
  ultimately show ?thesis by (simp add: last_conv_nth)
qed

lemma element_last: "xs \<noteq> [] \<Longrightarrow> element xs (int (length xs) - 1) = Some (last xs)"
  by (auto simp: element_def last_conv_nth nat_diff_distrib')

lemma element_nat: "i < length xs \<Longrightarrow> element xs (int i) = Some (xs ! i)"
  by (simp add: element_def)

lemma includes_js_iff: "includes_js s t \<longleftrightarrow> (\<exists>pre suf. s = pre @ t @ suf)"
proof (induction s)
  case Nil
  then show ?case by auto
next
  case (Cons c cs)
  show ?case
  proof
    assume "includes_js (c # cs) t"
    then consider "prefix t (c # cs)" | "includes_js cs t" by auto
    then show "\<exists>pre suf. c # cs = pre @ t @ suf"
    proof cases
      case 1
      then obtain suf where "c # cs = t @ suf" by (auto simp: prefix_def)
      then have "c # cs = [] @ t @ suf" by simp
      then show ?thesis by blast
    next
      case 2
      with Cons obtain pre suf where "cs = pre @ t @ suf" by auto
      then have "c # cs = (c # pre) @ t @ suf" by simp
      then show ?thesis by blast
    qed
  next
    assume "\<exists>pre suf. c # cs = pre @ t @ suf"
    then obtain pre suf where ps: "c # cs = pre @ t @ suf" by auto
    show "includes_js (c # cs) t"
    proof (cases pre)
      case Nil
      with ps have "prefix t (c # cs)" by (simp add: prefix_def)
      then show ?thesis by simp
    next
      case (Cons a pre')
      with ps have "cs = pre' @ t @ suf" by simp
      with Cons.IH have "includes_js cs t" by blast
      then show ?thesis by simp
    qed
  qed
qed

lemma js_separator: "js '', '' = [0x2C, 0x20]"
  by (simp add: js_def)

lemma js_double_separator: "js '', , '' = [0x2C, 0x20, 0x2C, 0x20]"
  by (simp add: js_def)

lemma commasApart_tl: "commasApart (x # xs) \<Longrightarrow> commasApart xs"
  by (cases "x # xs" rule: commasApart.cases) auto

lemma commasApart_drop: "commasApart (pre @ s) \<Longrightarrow> commasApart s"
  by (induction pre) (auto dest: commasApart_tl)

lemma commasApart_clean_prefix:
  "0x2C \<notin> set p \<Longrightarrow> commasApart (p @ s) = commasApart s"
proof (induction p)
  case Nil
  then show ?case by simp
next
  case (Cons a p)
  then have a: "a \<noteq> 0x2C" and ih: "commasApart (p @ s) = commasApart s" by simp_all
  have "commasApart (a # p @ s) = commasApart (p @ s)"
    using a by (cases "a # p @ s" rule: commasApart.cases) auto
  with ih show ?case by simp
qed

lemma commasApart_join:
  "\<forall>p \<in> set ps. p \<noteq> [] \<and> 0x2C \<notin> set p \<Longrightarrow> commasApart (join (js '', '') ps)"
proof (induction "js '', ''" ps rule: join.induct)
  case 1
  then show ?case by simp
next
  case (2 p)
  then show ?case using commasApart_clean_prefix [of p "[]"] by simp
next
  case (3 p q ps)
  let ?rest = "join (js '', '') (q # ps)"
  from 3 have ih: "commasApart ?rest" by simp
  from 3(2) have q: "q \<noteq> []" and "0x2C \<notin> set q" by simp_all
  then have "hd q \<noteq> 0x2C" by (metis hd_in_set)
  note q = q this
  then have "?rest \<noteq> []" and "hd ?rest \<noteq> 0x2C"
    using join_nonempty [of "q # ps" "js '', ''"] by simp_all
  then obtain c cs where rest: "?rest = c # cs" and c: "c \<noteq> 0x2C"
    by (cases ?rest) auto
  have "commasApart (0x20 # c # cs) = commasApart (c # cs)"
    by (cases cs) simp_all
  with ih rest c have "commasApart (0x2C # 0x20 # ?rest)" by simp
  moreover from 3(2) have "0x2C \<notin> set p" by simp
  ultimately show ?case
    by (simp add: commasApart_clean_prefix js_separator)
qed

lemma includes_double_separator: "includes_js s (js '', , '') \<Longrightarrow> \<not> commasApart s"
proof
  assume "includes_js s (js '', , '')" and c: "commasApart s"
  then obtain pre suf where "s = pre @ [0x2C, 0x20, 0x2C, 0x20] @ suf"
    by (auto simp: includes_js_iff js_double_separator)
  with c have "commasApart ([0x2C, 0x20, 0x2C, 0x20] @ suf)"
    using commasApart_drop by blast
  then show False by simp
qed

lemma trimmed_join_parts:
  assumes "ps \<noteq> []" and "\<forall>p \<in> set ps. p \<noteq> [] \<and> trimmed p"
  shows "trimmed (join sep ps)" and "join sep ps \<noteq> []"
proof -
  from assms have "hd ps \<noteq> [] \<and> trimmed (hd ps)" and "last ps \<noteq> [] \<and> trimmed (last ps)"
    by simp_all
  then have h: "hd ps \<noteq> []" and l: "last ps \<noteq> []"
    and hc: "\<not> isWhiteSpace (hd (hd ps))" and lc: "\<not> isWhiteSpace (last (last ps))"
    by (auto simp: trimmed_def)
  from join_nonempty [OF assms(1) h, of sep] join_last [OF assms(1) l, of sep] hc lc
  show "trimmed (join sep ps)" and "join sep ps \<noteq> []"
    by (auto simp: trimmed_def)
qed

text \<open>
  The greedy reading of the numeric-token pattern agrees with the pattern read as a
  language: one or more digits followed by code units of the tail class.
\<close>

lemma numericToken_iff:
  "numericToken t \<longleftrightarrow>
     (\<exists>ds rest. t = ds @ rest \<and> ds \<noteq> [] \<and> (\<forall>c \<in> set ds. isDigit c) \<and> (\<forall>c \<in> set rest. isNumberTail c))"
proof
  assume n: "numericToken t"
  let ?ds = "takeWhile isDigit t" and ?rest = "dropWhile isDigit t"
  have "t = ?ds @ ?rest" by simp
  moreover from n have "?ds \<noteq> []" by (simp add: numericToken_def)
  moreover have "\<forall>c \<in> set ?ds. isDigit c" by (auto dest: set_takeWhileD)
  moreover from n have "\<forall>c \<in> set ?rest. isNumberTail c"
    by (simp add: numericToken_def list_all_iff)
  ultimately show "\<exists>ds rest. t = ds @ rest \<and> ds \<noteq> [] \<and> (\<forall>c \<in> set ds. isDigit c) \<and> (\<forall>c \<in> set rest. isNumberTail c)"
    by blast
next
  assume "\<exists>ds rest. t = ds @ rest \<and> ds \<noteq> [] \<and> (\<forall>c \<in> set ds. isDigit c) \<and> (\<forall>c \<in> set rest. isNumberTail c)"
  then obtain ds rest where t: "t = ds @ rest" and ne: "ds \<noteq> []"
    and d: "\<forall>c \<in> set ds. isDigit c" and r: "\<forall>c \<in> set rest. isNumberTail c" by blast
  from ne d have "takeWhile isDigit t \<noteq> []" unfolding t by (cases ds) auto
  moreover from d have "dropWhile isDigit t = dropWhile isDigit rest"
    unfolding t by (simp add: dropWhile_append2)
  then have "\<forall>c \<in> set (dropWhile isDigit t). isNumberTail c"
    using r by (auto dest: set_dropWhileD)
  ultimately show "numericToken t" by (simp add: numericToken_def list_all_iff)
qed

section \<open>The tokenizer, case by case\<close>

lemma trimmed_head: "withoutCommas input = Inr head \<Longrightarrow> trimmed head"
  using trimmed_trim by (auto simp: withoutCommas_eq)

lemma numericTokenIndices_empty_head: "numericTokenIndices (splitWhitespace []) = []"
  by (simp add: splitWhitespace_Nil numericTokenIndices_def numericToken_def)

lemma hd_numericTokenIndices:
  assumes "numericTokenIndices ts \<noteq> []"
  shows "hd (numericTokenIndices ts) < length ts"
  using assms hd_in_set [OF assms] by (simp add: set_numericTokenIndices)

lemma extract_cases:
  assumes "withoutCommas input = Inr head"
  shows "extractStreetAndNumber input =
     (let tokens = splitWhitespace head; ix = numericTokenIndices tokens
      in if 2 \<le> length ix then
           Inr \<lparr>street = trim (join (js '' '') (take (last ix) tokens)), number = Some (tokens ! last ix)\<rparr>
         else if length ix = 1 \<and> Suc (hd ix) = length tokens \<and> 0 < hd ix then
           Inr \<lparr>street = trim (join (js '' '') (take (hd ix) tokens)), number = Some (tokens ! hd ix)\<rparr>
         else Inr \<lparr>street = head, number = None\<rparr>)"
proof -
  let ?tokens = "splitWhitespace head"
  let ?ix = "numericTokenIndices ?tokens"
  consider (two) "2 \<le> length ?ix" | (one) "length ?ix = 1" | (none) "length ?ix = 0"
    by linarith
  then show ?thesis
  proof cases
    case two
    then have ne: "?ix \<noteq> []" by auto
    have 1: "element ?ix (int (length ?ix) - 1) = Some (last ?ix)"
      using ne by (rule element_last)
    have 2: "element ?tokens (int (last ?ix)) = Some (?tokens ! last ?ix)"
      using last_numericTokenIndices(1) [OF ne] by (rule element_nat)
    show ?thesis
      using two by (simp add: extractStreetAndNumber_def assms Let_def 1 2)
  next
    case one
    then have ne: "?ix \<noteq> []" by auto
    have 1: "element ?ix 0 = Some (hd ?ix)" using ne by (rule element_0)
    have lt: "hd ?ix < length ?tokens" using ne by (rule hd_numericTokenIndices)
    have 2: "element ?tokens (int (hd ?ix)) = Some (?tokens ! hd ?ix)"
      using lt by (rule element_nat)
    have 3: "int (hd ?ix) = int (length ?tokens) - 1 \<longleftrightarrow> Suc (hd ?ix) = length ?tokens"
      by auto
    show ?thesis
      using one by (simp add: extractStreetAndNumber_def assms Let_def 1 2 3)
  next
    case none
    then show ?thesis
      by (simp add: extractStreetAndNumber_def assms Let_def)
  qed
qed

lemma street_of_clean_prefix:
  assumes "withoutCommas input = Inr head" and "numericTokenIndices (splitWhitespace head) \<noteq> []"
    and "0 < k" and "k \<le> length (splitWhitespace head)"
  shows "trim (join (js '' '') (take k (splitWhitespace head))) = join (js '' '') (take k (splitWhitespace head))"
    and "join (js '' '') (take k (splitWhitespace head)) \<noteq> []"
    and "noWhitespaceRun (join (js '' '') (take k (splitWhitespace head)))"
    and "trimmed (join (js '' '') (take k (splitWhitespace head)))"
proof -
  let ?tokens = "splitWhitespace head"
  from assms(2) have "head \<noteq> []" using numericTokenIndices_empty_head by auto
  with trimmed_head [OF assms(1)] have "\<forall>t \<in> set ?tokens. cleanToken t"
    by (simp add: tokens_clean)
  then have clean: "\<forall>t \<in> set (take k ?tokens). cleanToken t"
    by (meson in_set_takeD)
  from assms(3,4) have ne: "take k ?tokens \<noteq> []" by auto
  show t: "trimmed (join (js '' '') (take k ?tokens))"
    using ne clean by (rule trimmed_join)
  then show "trim (join (js '' '') (take k ?tokens)) = join (js '' '') (take k ?tokens)"
    by (rule trim_trimmed)
  show "join (js '' '') (take k ?tokens) \<noteq> []" using ne clean by (rule trimmed_join)
  show "noWhitespaceRun (join (js '' '') (take k ?tokens))"
    using clean by (rule noWhitespaceRun_join)
qed

text \<open>
  Claim C2. When the head of the input (the part before the first comma, trimmed) has two
  or more numeric tokens, the tokenizer returns the last numeric token as the number and
  the tokens strictly before it, joined by single spaces, as the street. The index \<open>k\<close> of the
  returned number is the greatest index of a numeric token, and it is not the first token.
  In particular \<^verbatim>\<open>"Ruta 8 1518"\<close> gives street \<^verbatim>\<open>"Ruta 8"\<close> and number \<^verbatim>\<open>"1518"\<close>.
\<close>

theorem two_numeric_tokens:
  assumes "withoutCommas input = Inr head"
    and "2 \<le> length (numericTokenIndices (splitWhitespace head))"
  shows "(let tokens = splitWhitespace head; k = last (numericTokenIndices tokens)
          in 0 < k \<and> k < length tokens \<and> numericToken (tokens ! k) \<and>
             (\<forall>j. k < j \<and> j < length tokens \<longrightarrow> \<not> numericToken (tokens ! j)) \<and>
             extractStreetAndNumber input =
               Inr \<lparr>street = join (js '' '') (take k tokens), number = Some (tokens ! k)\<rparr>) \<and>
         extractStreetAndNumber (js ''Ruta 8 1518'') =
           Inr \<lparr>street = js ''Ruta 8'', number = Some (js ''1518'')\<rparr>"
proof -
  let ?tokens = "splitWhitespace head"
  let ?ix = "numericTokenIndices ?tokens"
  let ?k = "last ?ix"
  from assms(2) have ne: "?ix \<noteq> []" by auto
  have pos: "0 < ?k" using assms(2) by (rule last_numericTokenIndices_pos)
  have lt: "?k < length ?tokens" using ne by (rule last_numericTokenIndices)
  have num: "numericToken (?tokens ! ?k)" using ne by (rule last_numericTokenIndices)
  have after: "\<forall>j. ?k < j \<and> j < length ?tokens \<longrightarrow> \<not> numericToken (?tokens ! j)"
    using ne by (rule last_numericTokenIndices)
  have tr: "trim (join (js '' '') (take ?k ?tokens)) = join (js '' '') (take ?k ?tokens)"
    using assms(1) ne pos lt by (intro street_of_clean_prefix) simp_all
  have ex: "extractStreetAndNumber input =
      Inr \<lparr>street = join (js '' '') (take ?k ?tokens), number = Some (?tokens ! ?k)\<rparr>"
    using assms(2) by (simp add: extract_cases [OF assms(1)] Let_def tr)
  have example: "extractStreetAndNumber (js ''Ruta 8 1518'') =
      Inr \<lparr>street = js ''Ruta 8'', number = Some (js ''1518'')\<rparr>"
    by code_simp
  from pos lt num after ex example show ?thesis by (simp add: Let_def)
qed

theorem two_numeric_tokens_witness:
  "withoutCommas (js '' Ruta 8  1518 bis, Ze'') = Inr (js ''Ruta 8  1518 bis'') \<and>
   2 \<le> length (numericTokenIndices (splitWhitespace (js ''Ruta 8  1518 bis''))) \<and>
   extractStreetAndNumber (js '' Ruta 8  1518 bis, Ze'') =
     Inr \<lparr>street = js ''Ruta 8'', number = Some (js ''1518'')\<rparr>"
proof -
  have h: "withoutCommas (js '' Ruta 8  1518 bis, Ze'') = Inr (js ''Ruta 8  1518 bis'')"
    by code_simp
  have n: "2 \<le> length (numericTokenIndices (splitWhitespace (js ''Ruta 8  1518 bis'')))"
    by code_simp
  have t: "splitWhitespace (js ''Ruta 8  1518 bis'') = [js ''Ruta'', js ''8'', js ''1518'', js ''bis'']"
    by code_simp
  have k: "last (numericTokenIndices [js ''Ruta'', js ''8'', js ''1518'', js ''bis'']) = 2"
    by code_simp
  have j: "join (js '' '') (take 2 [js ''Ruta'', js ''8'', js ''1518'', js ''bis'']) = js ''Ruta 8''"
    by code_simp
  have e: "[js ''Ruta'', js ''8'', js ''1518'', js ''bis''] ! 2 = js ''1518''"
    by code_simp
  note two_numeric_tokens [OF h n, unfolded Let_def t k j e]
  with h n show ?thesis by blast
qed

text \<open>
  Claim C3. When the head has exactly one numeric token, at index \<open>k\<close>, the tokenizer
  returns it as the number, with the tokens before it joined as the street, only when it is
  the last token and not the first; otherwise the whole head is the street and the number
  is null. In particular \<^verbatim>\<open>"9 de Julio"\<close> keeps its leading number in the street, and
  \<^verbatim>\<open>"Okinawa 1518, Ze"\<close> gives street \<^verbatim>\<open>"Okinawa"\<close> and number \<^verbatim>\<open>"1518"\<close>.
\<close>

theorem one_numeric_token:
  assumes "withoutCommas input = Inr head"
    and "numericTokenIndices (splitWhitespace head) = [k]"
  shows "(let tokens = splitWhitespace head
          in numericToken (tokens ! k) \<and> k < length tokens \<and>
             (Suc k = length tokens \<and> 0 < k \<longrightarrow>
                extractStreetAndNumber input =
                  Inr \<lparr>street = join (js '' '') (take k tokens), number = Some (tokens ! k)\<rparr>) \<and>
             (\<not> (Suc k = length tokens \<and> 0 < k) \<longrightarrow>
                extractStreetAndNumber input = Inr \<lparr>street = head, number = None\<rparr>)) \<and>
         extractStreetAndNumber (js ''9 de Julio'') =
           Inr \<lparr>street = js ''9 de Julio'', number = None\<rparr> \<and>
         extractStreetAndNumber (js ''Okinawa 1518, Ze'') =
           Inr \<lparr>street = js ''Okinawa'', number = Some (js ''1518'')\<rparr>"
proof -
  let ?tokens = "splitWhitespace head"
  let ?ix = "numericTokenIndices ?tokens"
  from assms(2) have ne: "?ix \<noteq> []" by simp
  from assms(2) have k: "last ?ix = k" "hd ?ix = k" by simp_all
  have lt: "k < length ?tokens" using last_numericTokenIndices(1) [OF ne] k by simp
  have num: "numericToken (?tokens ! k)" using last_numericTokenIndices(2) [OF ne] k by simp
  have a: "extractStreetAndNumber input =
      Inr \<lparr>street = join (js '' '') (take k ?tokens), number = Some (?tokens ! k)\<rparr>"
    if "Suc k = length ?tokens \<and> 0 < k"
  proof -
    have "trim (join (js '' '') (take k ?tokens)) = join (js '' '') (take k ?tokens)"
      using assms(1) ne that lt by (intro street_of_clean_prefix) simp_all
    with that show ?thesis
      by (simp add: extract_cases [OF assms(1)] Let_def assms(2))
  qed
  have b: "extractStreetAndNumber input = Inr \<lparr>street = head, number = None\<rparr>"
    if "\<not> (Suc k = length ?tokens \<and> 0 < k)"
    using that by (simp add: extract_cases [OF assms(1)] Let_def assms(2))
  have e1: "extractStreetAndNumber (js ''9 de Julio'') =
      Inr \<lparr>street = js ''9 de Julio'', number = None\<rparr>"
    by code_simp
  have e2: "extractStreetAndNumber (js ''Okinawa 1518, Ze'') =
      Inr \<lparr>street = js ''Okinawa'', number = Some (js ''1518'')\<rparr>"
    by code_simp
  from lt num a b e1 e2 show ?thesis by (simp add: Let_def)
qed

theorem one_numeric_token_witness:
  "withoutCommas (js ''Av. Alsina 123, Ze'') = Inr (js ''Av. Alsina 123'') \<and>
   numericTokenIndices (splitWhitespace (js ''Av. Alsina 123'')) = [2] \<and>
   extractStreetAndNumber (js ''Av. Alsina 123, Ze'') =
     Inr \<lparr>street = js ''Av. Alsina'', number = Some (js ''123'')\<rparr> \<and>
   withoutCommas (js ''25 de Mayo, Ze'') = Inr (js ''25 de Mayo'') \<and>
   numericTokenIndices (splitWhitespace (js ''25 de Mayo'')) = [0] \<and>
   extractStreetAndNumber (js ''25 de Mayo, Ze'') = Inr \<lparr>street = js ''25 de Mayo'', number = None\<rparr>"
proof -
  have h: "withoutCommas (js ''Av. Alsina 123, Ze'') = Inr (js ''Av. Alsina 123'')"
    by code_simp
  have n: "numericTokenIndices (splitWhitespace (js ''Av. Alsina 123'')) = [2]"
    by code_simp
  have t: "splitWhitespace (js ''Av. Alsina 123'') = [js ''Av.'', js ''Alsina'', js ''123'']"
    by code_simp
  have j: "join (js '' '') (take 2 [js ''Av.'', js ''Alsina'', js ''123'']) = js ''Av. Alsina''"
    by code_simp
  have e: "[js ''Av.'', js ''Alsina'', js ''123''] ! 2 = js ''123''"
    by code_simp
  have l: "Suc 2 = length [js ''Av.'', js ''Alsina'', js ''123''] \<and> (0::nat) < 2"
    by simp
  note one_numeric_token [OF h n, unfolded Let_def t j e]
  with l have 1: "extractStreetAndNumber (js ''Av. Alsina 123, Ze'') =
      Inr \<lparr>street = js ''Av. Alsina'', number = Some (js ''123'')\<rparr>"
    by blast
  have h': "withoutCommas (js ''25 de Mayo, Ze'') = Inr (js ''25 de Mayo'')"
    by code_simp
  have n': "numericTokenIndices (splitWhitespace (js ''25 de Mayo'')) = [0]"
    by code_simp
  note one_numeric_token [OF h' n', unfolded Let_def]
  then have 2: "extractStreetAndNumber (js ''25 de Mayo, Ze'') =
      Inr \<lparr>street = js ''25 de Mayo'', number = None\<rparr>"
    by blast
  from h n 1 h' n' 2 show ?thesis by simp
qed

text \<open>
  Claim C9. Whenever the tokenizer returns a number, that number matches the numeric-token
  pattern (so it is non-empty and begins with a digit) and the street returned with it is
  non-empty.
\<close>

theorem number_is_numeric_and_street_nonempty:
  assumes "extractStreetAndNumber input = Inr p" and "number p = Some n"
  shows "numericToken n \<and> n \<noteq> [] \<and> isDigit (hd n) \<and> street p \<noteq> []"
proof -
  obtain head where head: "withoutCommas input = Inr head"
    by (simp add: withoutCommas_eq)
  let ?tokens = "splitWhitespace head"
  let ?ix = "numericTokenIndices ?tokens"
  note ex = extract_cases [OF head, unfolded Let_def]
  consider (two) "2 \<le> length ?ix"
    | (one) "\<not> 2 \<le> length ?ix" "length ?ix = 1 \<and> Suc (hd ?ix) = length ?tokens \<and> 0 < hd ?ix"
    | (none) "\<not> 2 \<le> length ?ix" "\<not> (length ?ix = 1 \<and> Suc (hd ?ix) = length ?tokens \<and> 0 < hd ?ix)"
    by blast
  then show ?thesis
  proof cases
    case two
    then have ne: "?ix \<noteq> []" by auto
    from two ex assms have p: "n = ?tokens ! last ?ix"
      "street p = trim (join (js '' '') (take (last ?ix) ?tokens))" by auto
    have "numericToken n" using last_numericTokenIndices(2) [OF ne] p by simp
    moreover have "street p \<noteq> []"
      using street_of_clean_prefix(1,2) [OF head ne last_numericTokenIndices_pos [OF two]]
        last_numericTokenIndices(1) [OF ne] p by simp
    ultimately show ?thesis using numericToken_digit by blast
  next
    case one
    then have ne: "?ix \<noteq> []" by auto
    from one ex assms have p: "n = ?tokens ! hd ?ix"
      "street p = trim (join (js '' '') (take (hd ?ix) ?tokens))" by auto
    have "hd ?ix \<in> set ?ix" using ne by simp
    then have "numericToken n" using p by (simp add: set_numericTokenIndices)
    moreover have "street p \<noteq> []"
      using street_of_clean_prefix(1,2) [OF head ne, of "hd ?ix"] one p by simp
    ultimately show ?thesis using numericToken_digit by blast
  next
    case none
    with ex assms show ?thesis by auto
  qed
qed

theorem number_is_numeric_and_street_nonempty_witness:
  "extractStreetAndNumber (js ''Okinawa 1518A, Ze'') =
     Inr \<lparr>street = js ''Okinawa'', number = Some (js ''1518A'')\<rparr> \<and>
   numericToken (js ''1518A'') \<and> js ''1518A'' \<noteq> [] \<and> isDigit (hd (js ''1518A'')) \<and>
   js ''Okinawa'' \<noteq> []"
proof -
  have e: "extractStreetAndNumber (js ''Okinawa 1518A, Ze'') =
     Inr \<lparr>street = js ''Okinawa'', number = Some (js ''1518A'')\<rparr>"
    by code_simp
  from number_is_numeric_and_street_nonempty [OF e, of "js ''1518A''"] e
  show ?thesis by simp
qed

text \<open>
  Claim C7 says that the street has no run of two or more white space characters in any
  branch. In the branches that return the whole head the street is the head as typed, and a
  run of white space inside it stays: \<^verbatim>\<open>"Main  Street"\<close> is returned with both spaces.
\<close>

theorem whole_head_keeps_whitespace_runs:
  "extractStreetAndNumber (js ''Main  Street'') = Inr \<lparr>street = js ''Main  Street'', number = None\<rparr> \<and>
   \<not> noWhitespaceRun (js ''Main  Street'')"
  by code_simp

text \<open>
  Claim C7, amended. In every branch the street has no white space at either end. When a
  number is returned, the street is the join of tokens by single spaces and has no run of
  two or more white space characters. When no number is returned, the street is the
  trimmed head itself, with its inner white space unchanged.
\<close>

theorem street_trimmed_and_collapsed_when_joined:
  assumes "extractStreetAndNumber input = Inr p"
  shows "trimmed (street p) \<and>
         (number p \<noteq> None \<longrightarrow> noWhitespaceRun (street p)) \<and>
         (number p = None \<longrightarrow> withoutCommas input = Inr (street p))"
proof -
  obtain head where head: "withoutCommas input = Inr head"
    by (simp add: withoutCommas_eq)
  let ?tokens = "splitWhitespace head"
  let ?ix = "numericTokenIndices ?tokens"
  note ex = extract_cases [OF head, unfolded Let_def]
  consider (two) "2 \<le> length ?ix"
    | (one) "\<not> 2 \<le> length ?ix" "length ?ix = 1 \<and> Suc (hd ?ix) = length ?tokens \<and> 0 < hd ?ix"
    | (none) "\<not> 2 \<le> length ?ix" "\<not> (length ?ix = 1 \<and> Suc (hd ?ix) = length ?tokens \<and> 0 < hd ?ix)"
    by blast
  then show ?thesis
  proof cases
    case two
    then have ne: "?ix \<noteq> []" by auto
    from two ex assms have p: "number p \<noteq> None"
      "street p = trim (join (js '' '') (take (last ?ix) ?tokens))" by auto
    show ?thesis
      using street_of_clean_prefix [OF head ne last_numericTokenIndices_pos [OF two]]
        last_numericTokenIndices(1) [OF ne] p by auto
  next
    case one
    then have ne: "?ix \<noteq> []" by auto
    from one ex assms have p: "number p \<noteq> None"
      "street p = trim (join (js '' '') (take (hd ?ix) ?tokens))" by auto
    show ?thesis
      using street_of_clean_prefix [OF head ne, of "hd ?ix"] one p by auto
  next
    case none
    with ex assms have "street p = head" "number p = None" by auto
    with head trimmed_head [OF head] show ?thesis by simp
  qed
qed

theorem street_trimmed_and_collapsed_when_joined_witness:
  "extractStreetAndNumber (js ''  Av.   Alsina   123 , Ze'') =
     Inr \<lparr>street = js ''Av. Alsina'', number = Some (js ''123'')\<rparr> \<and>
   trimmed (js ''Av. Alsina'') \<and> noWhitespaceRun (js ''Av. Alsina'')"
proof -
  have e: "extractStreetAndNumber (js ''  Av.   Alsina   123 , Ze'') =
     Inr \<lparr>street = js ''Av. Alsina'', number = Some (js ''123'')\<rparr>"
    by code_simp
  from street_trimmed_and_collapsed_when_joined [OF e] e
  show ?thesis by simp
qed

section \<open>The formatter's output\<close>

lemma format_no_address: "address r = None \<Longrightarrow> formatArgentinianAddress r h = display_name r"
  by (simp add: formatArgentinianAddress_def)

lemma format_address:
  "address r = Some a \<Longrightarrow>
   formatArgentinianAddress r h =
     (if trim (join (js '', '') (addressParts a h)) \<noteq> []
      then trim (join (js '', '') (addressParts a h)) else display_name r)"
  by (simp add: formatArgentinianAddress_def Let_def)

lemma addressParts_hint_number:
  assumes "number h = Some n" and "n \<noteq> []"
  shows "addressParts a (Some h) =
         addressParts (a\<lparr>house_number := Some n,
                         road := (if street h \<noteq> [] then Some (street h) else road a)\<rparr>) None"
  using assms
  by (simp add: addressParts_def Let_def injectedNumber_def injectedStreet_def truthy_def or_empty_def)

lemma addressParts_hint_street:
  assumes "number h = Some n" and "n \<noteq> []" and "street h \<noteq> []"
  shows "\<exists>rest. addressParts a (Some h) = (street h @ js '' '' @ n) # rest"
  using assms
  by (simp add: addressParts_def Let_def injectedNumber_def injectedStreet_def truthy_def or_empty_def)

lemma addressParts_nonempty: "\<forall>p \<in> set (addressParts a h). p \<noteq> []"
  by (auto simp: addressParts_def Let_def)

lemma addressParts_no_street:
  "\<not> truthy (road a) \<Longrightarrow> \<not> truthy (injectedStreet h) \<Longrightarrow>
   addressParts a h = addressParts (a\<lparr>house_number := None\<rparr>) None"
  by (auto simp: addressParts_def Let_def truthy_def or_empty_def injectedStreet_def
      split: option.splits)

text \<open>
  Claim C1. For a record with an address object and a hint whose number is present and
  non-empty, the formatter writes the hint's number where the record's house number would
  stand, and the hint's street, when non-empty, where the record's road would stand,
  whatever the road is: the output is the one of the record with these two fields
  replaced and no hint. With a non-empty hint street the first part is the hint street, a
  space and the hint number. In particular the record with road \<^verbatim>\<open>"Av. Jos\'e Andr\'es L\'opez"\<close>,
  house number \<^verbatim>\<open>"200"\<close>, town \<^verbatim>\<open>"Ze"\<close> and state \<^verbatim>\<open>"Buenos Aires"\<close> with the hint
  \<^verbatim>\<open>{street: "Calle 844", number: "1518"}\<close> gives \<^verbatim>\<open>"Calle 844 1518, Ze, Buenos Aires"\<close>.
\<close>

theorem hint_overrides_number_and_street:
  assumes "address r = Some a" and "number h = Some n" and "n \<noteq> []"
  shows "formatArgentinianAddress r (Some h) =
           formatArgentinianAddress
             (r\<lparr>address := Some (a\<lparr>house_number := Some n,
                  road := (if street h \<noteq> [] then Some (street h) else road a)\<rparr>)\<rparr>) None \<and>
         (street h \<noteq> [] \<longrightarrow> (\<exists>rest. addressParts a (Some h) = (street h @ js '' '' @ n) # rest)) \<and>
         formatArgentinianAddress
           \<lparr>display_name = js ''Ze, Buenos Aires, Argentina'', lat = js ''-34.6'', lon = js ''-58.4'',
              address = Some lopez\<rparr>
           (Some \<lparr>street = js ''Calle 844'', number = Some (js ''1518'')\<rparr>) =
         js ''Calle 844 1518, Ze, Buenos Aires''"
proof -
  let ?a' = "a\<lparr>house_number := Some n, road := (if street h \<noteq> [] then Some (street h) else road a)\<rparr>"
  have "formatArgentinianAddress r (Some h) = formatArgentinianAddress (r\<lparr>address := Some ?a'\<rparr>) None"
    using addressParts_hint_number [OF assms(2,3), of a]
    by (simp add: format_address [OF assms(1)] format_address [of "r\<lparr>address := Some ?a'\<rparr>" ?a'])
  moreover have "street h \<noteq> [] \<longrightarrow> (\<exists>rest. addressParts a (Some h) = (street h @ js '' '' @ n) # rest)"
    using addressParts_hint_street [OF assms(2,3)] by simp
  moreover have "formatArgentinianAddress
           \<lparr>display_name = js ''Ze, Buenos Aires, Argentina'', lat = js ''-34.6'', lon = js ''-58.4'',
              address = Some lopez\<rparr>
           (Some \<lparr>street = js ''Calle 844'', number = Some (js ''1518'')\<rparr>) =
         js ''Calle 844 1518, Ze, Buenos Aires''"
    by code_simp
  ultimately show ?thesis by simp
qed

theorem hint_overrides_number_and_street_witness:
  "formatArgentinianAddress
     \<lparr>display_name = js ''Ze, Buenos Aires, Argentina'', lat = js ''-34.6'', lon = js ''-58.4'',
        address = Some lopez\<rparr>
     (Some \<lparr>street = js ''Calle 844'', number = Some (js ''1518'')\<rparr>) =
   formatArgentinianAddress
     \<lparr>display_name = js ''Ze, Buenos Aires, Argentina'', lat = js ''-34.6'', lon = js ''-58.4'',
        address = Some (lopez\<lparr>house_number := Some (js ''1518''), road := Some (js ''Calle 844'')\<rparr>)\<rparr>
     None"
proof -
  let ?r = "\<lparr>display_name = js ''Ze, Buenos Aires, Argentina'', lat = js ''-34.6'', lon = js ''-58.4'',
        address = Some lopez\<rparr>"
  let ?h = "\<lparr>street = js ''Calle 844'', number = Some (js ''1518'')\<rparr>"
  have 1: "address ?r = Some lopez" by simp
  have 2: "number ?h = Some (js ''1518'')" by simp
  have 3: "js ''1518'' \<noteq> []" by (simp add: js_def)
  have 4: "street ?h \<noteq> []" by (simp add: js_def)
  from hint_overrides_number_and_street [OF 1 2 3] 4 show ?thesis by simp
qed

text \<open>
  Claim C5. A record without an address object is formatted as its \<open>display_name\<close>,
  unchanged; so is a record whose joined parts are empty after trimming. Hence the result
  is never empty when \<open>display_name\<close> is not.
\<close>

theorem fallback_to_display_name:
  "(address r = None \<longrightarrow> formatArgentinianAddress r h = display_name r) \<and>
   (\<forall>a. address r = Some a \<and> trim (join (js '', '') (addressParts a h)) = [] \<longrightarrow>
        formatArgentinianAddress r h = display_name r) \<and>
   (display_name r \<noteq> [] \<longrightarrow> formatArgentinianAddress r h \<noteq> [])"
  by (cases "address r") (simp_all add: format_no_address format_address)

theorem fallback_to_display_name_witness:
  "formatArgentinianAddress
     \<lparr>display_name = js ''Plaza, Ze'', lat = js ''-34.6'', lon = js ''-58.4'', address = None\<rparr>
     (Some \<lparr>street = js ''Okinawa'', number = Some (js ''1518'')\<rparr>) = js ''Plaza, Ze'' \<and>
   trim (join (js '', '') (addressParts (noFields\<lparr>house_number := Some (js ''7'')\<rparr>) None)) = [] \<and>
   formatArgentinianAddress
     \<lparr>display_name = js ''Plaza, Ze'', lat = js ''-34.6'', lon = js ''-58.4'',
        address = Some (noFields\<lparr>house_number := Some (js ''7'')\<rparr>)\<rparr> None = js ''Plaza, Ze''"
proof -
  let ?r1 = "\<lparr>display_name = js ''Plaza, Ze'', lat = js ''-34.6'', lon = js ''-58.4'', address = None\<rparr>"
  let ?a = "noFields\<lparr>house_number := Some (js ''7'')\<rparr>"
  let ?r2 = "\<lparr>display_name = js ''Plaza, Ze'', lat = js ''-34.6'', lon = js ''-58.4'', address = Some ?a\<rparr>"
  have t: "trim (join (js '', '') (addressParts ?a None)) = []"
    by code_simp
  from fallback_to_display_name [of ?r1 "Some \<lparr>street = js ''Okinawa'', number = Some (js ''1518'')\<rparr>"]
  have 1: "formatArgentinianAddress ?r1 (Some \<lparr>street = js ''Okinawa'', number = Some (js ''1518'')\<rparr>) = js ''Plaza, Ze''"
    by simp
  from fallback_to_display_name [of ?r2 None] t
  have 2: "formatArgentinianAddress ?r2 None = js ''Plaza, Ze''"
    by simp
  from 1 t 2 show ?thesis by simp
qed

text \<open>
  Claim C10 says that the output never contains \<^verbatim>\<open>", , "\<close> and never begins with the
  separator. The formatter joins the fields as they are: a field that itself begins with a
  comma and a space puts \<^verbatim>\<open>", , "\<close> in the output, and a first part made of white space is
  trimmed away and leaves the separator at the start.
\<close>

theorem separators_inside_fields:
  "formatArgentinianAddress
     \<lparr>display_name = js ''x'', lat = js ''-34.6'', lon = js ''-58.4'',
        address = Some (noFields\<lparr>road := Some (js ''Calle 1''), town := Some (js ''Ze''),
                                  state := Some (js '', Buenos Aires'')\<rparr>)\<rparr> None
     = js ''Calle 1, Ze, , Buenos Aires'' \<and>
   includes_js (js ''Calle 1, Ze, , Buenos Aires'') (js '', , '') \<and>
   formatArgentinianAddress
     \<lparr>display_name = js ''x'', lat = js ''-34.6'', lon = js ''-58.4'',
        address = Some (noFields\<lparr>town := Some (js '' ''), state := Some (js ''Buenos Aires'')\<rparr>)\<rparr> None
     = js '', Buenos Aires'' \<and>
   prefix (js '', '') (js '', Buenos Aires'')"
  by code_simp

text \<open>
  Claim C10, amended. For a record with an address object, every part that the formatter
  joins is non-empty. When, in addition, there is at least one part and no part contains a
  comma or has white space at either end, the output is exactly the parts joined by
  \<^verbatim>\<open>", "\<close>: it does not contain \<^verbatim>\<open>", , "\<close> and neither begins nor ends with \<^verbatim>\<open>", "\<close>.
  When neither the record's road nor the hint's street is usable, the output is the one
  of the same record without any number: the hint number is absent from it.
\<close>

theorem parts_joined_without_empty_segments:
  assumes "address r = Some a"
  shows "(\<forall>p \<in> set (addressParts a h). p \<noteq> []) \<and>
         ((\<forall>p \<in> set (addressParts a h). 0x2C \<notin> set p \<and> trimmed p) \<and> addressParts a h \<noteq> [] \<longrightarrow>
            formatArgentinianAddress r h = join (js '', '') (addressParts a h) \<and>
            \<not> includes_js (formatArgentinianAddress r h) (js '', , '') \<and>
            \<not> prefix (js '', '') (formatArgentinianAddress r h) \<and>
            \<not> suffix (js '', '') (formatArgentinianAddress r h)) \<and>
         (\<not> truthy (road a) \<and> \<not> truthy (injectedStreet h) \<longrightarrow>
            formatArgentinianAddress r h =
              formatArgentinianAddress (r\<lparr>address := Some (a\<lparr>house_number := None\<rparr>)\<rparr>) None)"
proof -
  let ?ps = "addressParts a h"
  let ?out = "formatArgentinianAddress r h"
  have ne: "\<forall>p \<in> set ?ps. p \<noteq> []" by (rule addressParts_nonempty)
  have clean: "?out = join (js '', '') ?ps \<and> \<not> includes_js ?out (js '', , '') \<and>
      \<not> prefix (js '', '') ?out \<and> \<not> suffix (js '', '') ?out"
    if c: "\<forall>p \<in> set ?ps. 0x2C \<notin> set p \<and> trimmed p" and nonempty: "?ps \<noteq> []"
  proof -
    let ?j = "join (js '', '') ?ps"
    from ne c have tr: "\<forall>p \<in> set ?ps. p \<noteq> [] \<and> trimmed p" by simp
    have t: "trimmed ?j" and jne: "?j \<noteq> []"
      using nonempty tr by (rule trimmed_join_parts)+
    then have out: "?out = ?j"
      by (simp add: format_address [OF assms] trim_trimmed)
    from ne c have "commasApart ?j" by (intro commasApart_join) simp
    then have 1: "\<not> includes_js ?j (js '', , '')"
      using includes_double_separator by blast
    from nonempty ne c have "hd ?ps \<noteq> []" and "0x2C \<notin> set (hd ?ps)" by simp_all
    then have "hd ?j \<noteq> 0x2C"
      using join_nonempty [OF nonempty, of "js '', ''"] by (metis hd_in_set)
    with jne have 2: "\<not> prefix (js '', '') ?j"
      by (cases ?j) (auto simp: js_separator)
    from t jne have "last ?j \<noteq> 0x20"
      using isWhiteSpace_space by (auto simp: trimmed_def)
    with jne have 3: "\<not> suffix (js '', '') ?j"
      by (auto simp: js_separator suffix_def)
    from out 1 2 3 show ?thesis by simp
  qed
  have absent: "?out = formatArgentinianAddress (r\<lparr>address := Some (a\<lparr>house_number := None\<rparr>)\<rparr>) None"
    if "\<not> truthy (road a)" and "\<not> truthy (injectedStreet h)"
    using addressParts_no_street [OF that]
    by (simp add: format_address [OF assms]
        format_address [of "r\<lparr>address := Some (a\<lparr>house_number := None\<rparr>)\<rparr>" "a\<lparr>house_number := None\<rparr>"])
  from ne clean absent show ?thesis by blast
qed

theorem parts_joined_without_empty_segments_witness:
  "addressParts lopez (Some \<lparr>street = js ''Calle 844'', number = Some (js ''1518'')\<rparr>) =
     [js ''Calle 844 1518'', js ''Ze'', js ''Buenos Aires''] \<and>
   formatArgentinianAddress
     \<lparr>display_name = js ''Ze, Buenos Aires, Argentina'', lat = js ''-34.6'', lon = js ''-58.4'',
        address = Some lopez\<rparr>
     (Some \<lparr>street = js ''Calle 844'', number = Some (js ''1518'')\<rparr>) =
     js ''Calle 844 1518, Ze, Buenos Aires'' \<and>
   \<not> includes_js (js ''Calle 844 1518, Ze, Buenos Aires'') (js '', , '') \<and>
   \<not> truthy (road (noFields\<lparr>town := Some (js ''Ze'')\<rparr>)) \<and>
   \<not> truthy (injectedStreet (Some \<lparr>street = [], number = Some (js ''1518'')\<rparr>)) \<and>
   formatArgentinianAddress
     \<lparr>display_name = js ''Ze, Argentina'', lat = js ''-34.6'', lon = js ''-58.4'',
        address = Some (noFields\<lparr>town := Some (js ''Ze'')\<rparr>)\<rparr>
     (Some \<lparr>street = [], number = Some (js ''1518'')\<rparr>) = js ''Ze''"
proof -
  let ?h = "Some \<lparr>street = js ''Calle 844'', number = Some (js ''1518'')\<rparr>"
  let ?r = "\<lparr>display_name = js ''Ze, Buenos Aires, Argentina'', lat = js ''-34.6'', lon = js ''-58.4'',
        address = Some lopez\<rparr>"
  let ?a2 = "noFields\<lparr>town := Some (js ''Ze'')\<rparr>"
  let ?h2 = "Some \<lparr>street = [], number = Some (js ''1518'')\<rparr>"
  let ?r2 = "\<lparr>display_name = js ''Ze, Argentina'', lat = js ''-34.6'', lon = js ''-58.4'',
        address = Some ?a2\<rparr>"
  have c: "\<forall>p \<in> set (addressParts lopez ?h). 0x2C \<notin> set p \<and> trimmed p"
    by code_simp
  have n: "addressParts lopez ?h \<noteq> []"
    by code_simp
  have j: "join (js '', '') (addressParts lopez ?h) = js ''Calle 844 1518, Ze, Buenos Aires''"
    by code_simp
  have a: "address ?r = Some lopez" by simp
  from parts_joined_without_empty_segments [OF a, of ?h] c n
  have eq: "formatArgentinianAddress ?r ?h = join (js '', '') (addressParts lopez ?h)"
    and ni: "\<not> includes_js (formatArgentinianAddress ?r ?h) (js '', , '')"
    by blast+
  from eq j have eq': "formatArgentinianAddress ?r ?h = js ''Calle 844 1518, Ze, Buenos Aires''"
    by simp
  from ni have "\<not> includes_js (js ''Calle 844 1518, Ze, Buenos Aires'') (js '', , '')"
    unfolding eq' .
  with eq' have 1: "formatArgentinianAddress ?r ?h = js ''Calle 844 1518, Ze, Buenos Aires'' \<and>
      \<not> includes_js (js ''Calle 844 1518, Ze, Buenos Aires'') (js '', , '')"
    by (rule conjI)
  have t: "\<not> truthy (road ?a2)" by code_simp
  have s: "\<not> truthy (injectedStreet ?h2)" by code_simp
  have e: "formatArgentinianAddress (?r2\<lparr>address := Some (?a2\<lparr>house_number := None\<rparr>)\<rparr>) None = js ''Ze''"
    by code_simp
  have a2: "address ?r2 = Some ?a2" by simp
  from parts_joined_without_empty_segments [OF a2, of ?h2] t s e
  have 2: "formatArgentinianAddress ?r2 ?h2 = js ''Ze''"
    by simp
  have ps: "addressParts lopez ?h = [js ''Calle 844 1518'', js ''Ze'', js ''Buenos Aires'']"
    by code_simp
  from ps 1 t s 2 show ?thesis by simp
qed

text \<open>
  Claim C8. Both functions return for every input. In the tokenizer no read falls outside
  its array: the result is never \<open>TypeError\<close> or \<open>UndefinedRead\<close>, and when the number is null
  the street is the head. The formatter has no partial operation (every property is read
  from \<^verbatim>\<open>result\<close>, from \<^verbatim>\<open>addr\<close> after its guard or through \<^verbatim>\<open>?.\<close>), and its value is either
  \<open>display_name\<close> or the trimmed join of the parts.
\<close>

theorem core_functions_return:
  "(\<exists>head p. withoutCommas input = Inr head \<and> extractStreetAndNumber input = Inr p \<and>
        (number p = None \<longrightarrow> street p = head)) \<and>
   (formatArgentinianAddress r h = display_name r \<or>
    (\<exists>a. address r = Some a \<and>
         formatArgentinianAddress r h = trim (join (js '', '') (addressParts a h))))"
proof -
  obtain head where head: "withoutCommas input = Inr head"
    by (simp add: withoutCommas_eq)
  have "\<exists>p. extractStreetAndNumber input = Inr p \<and> (number p = None \<longrightarrow> street p = head)"
    by (simp add: extract_cases [OF head] Let_def)
  then obtain p where "extractStreetAndNumber input = Inr p" "number p = None \<longrightarrow> street p = head"
    by (elim exE conjE)
  with head have 1: "\<exists>head p. withoutCommas input = Inr head \<and> extractStreetAndNumber input = Inr p \<and>
        (number p = None \<longrightarrow> street p = head)" by (intro exI conjI)
  have 2: "formatArgentinianAddress r h = display_name r \<or>
    (\<exists>a. address r = Some a \<and>
         formatArgentinianAddress r h = trim (join (js '', '') (addressParts a h)))"
    by (cases "address r") (simp_all add: format_no_address format_address)
  from 1 2 show ?thesis by simp
qed

theorem core_functions_return_witness:
  "withoutCommas (js ''9 de Julio, CABA'') = Inr (js ''9 de Julio'') \<and>
   extractStreetAndNumber (js ''9 de Julio, CABA'') = Inr \<lparr>street = js ''9 de Julio'', number = None\<rparr> \<and>
   (formatArgentinianAddress
      \<lparr>display_name = js ''Plaza, Ze'', lat = js ''-34.6'', lon = js ''-58.4'', address = None\<rparr> None =
      js ''Plaza, Ze'')"
proof -
  let ?r = "\<lparr>display_name = js ''Plaza, Ze'', lat = js ''-34.6'', lon = js ''-58.4'', address = None\<rparr>"
  have e: "extractStreetAndNumber (js ''9 de Julio, CABA'') = Inr \<lparr>street = js ''9 de Julio'', number = None\<rparr>"
    by code_simp
  note th = core_functions_return [of "js ''9 de Julio, CABA''" ?r None]
  from th have "\<exists>head p. withoutCommas (js ''9 de Julio, CABA'') = Inr head \<and>
      extractStreetAndNumber (js ''9 de Julio, CABA'') = Inr p \<and> (number p = None \<longrightarrow> street p = head)"
    by (rule conjunct1)
  then obtain head p where h: "withoutCommas (js ''9 de Julio, CABA'') = Inr head"
    and p: "extractStreetAndNumber (js ''9 de Julio, CABA'') = Inr p"
    and d: "number p = None \<longrightarrow> street p = head"
    by (elim exE conjE)
  from th have f: "formatArgentinianAddress ?r None = display_name ?r \<or>
      (\<exists>a. address ?r = Some a \<and> formatArgentinianAddress ?r None = trim (join (js '', '') (addressParts a None)))"
    by (rule conjunct2)
  from p e have "p = \<lparr>street = js ''9 de Julio'', number = None\<rparr>" by simp
  with d have "head = js ''9 de Julio''" by simp
  with h e f show ?thesis by simp
qed

section \<open>Filtering and deduplication\<close>

lemma dedupe_append: "dedupe seen acc ms = acc @ dedupe seen [] ms"
proof (induction ms arbitrary: seen acc)
  case Nil
  then show ?case by simp
next
  case (Cons m ms)
  show ?case
  proof (cases "display_name m \<in> seen")
    case True
    with Cons [of seen acc] show ?thesis by simp
  next
    case False
    have "dedupe (insert (display_name m) seen) (acc @ [m]) ms =
          (acc @ [m]) @ dedupe (insert (display_name m) seen) [] ms" by (rule Cons)
    moreover have "dedupe (insert (display_name m) seen) [m] ms =
          [m] @ dedupe (insert (display_name m) seen) [] ms" by (rule Cons)
    ultimately show ?thesis using False by simp
  qed
qed

lemma dedupe_Cons:
  "dedupe seen [] (m # ms) =
     (if display_name m \<in> seen then dedupe seen [] ms
      else m # dedupe (insert (display_name m) seen) [] ms)"
  using dedupe_append [of "insert (display_name m) seen" "[m]" ms] by simp

lemma dedupe_indices:
  "dedupe seen [] ms =
     map (\<lambda>i. ms ! i)
       (filter (\<lambda>i. display_name (ms ! i) \<notin> seen \<union> display_name ` set (take i ms)) [0..<length ms])"
proof (induction ms arbitrary: seen)
  case Nil
  then show ?case by simp
next
  case (Cons m ms)
  have upt: "[0..<length (m # ms)] = 0 # map Suc [0..<length ms]"
    by (simp add: upt_conv_Cons map_Suc_upt del: upt_Suc)
  have shift: "map (\<lambda>i. (m # ms) ! i)
       (filter (\<lambda>i. display_name ((m # ms) ! i) \<notin> seen \<union> display_name ` set (take i (m # ms)))
          (map Suc [0..<length ms])) =
     map (\<lambda>i. ms ! i)
       (filter (\<lambda>i. display_name (ms ! i) \<notin> insert (display_name m) seen \<union> display_name ` set (take i ms))
          [0..<length ms])"
  proof -
    have "filter (\<lambda>i. display_name ((m # ms) ! i) \<notin> seen \<union> display_name ` set (take i (m # ms)))
            (map Suc [0..<length ms]) =
          map Suc (filter (\<lambda>i. display_name (ms ! i) \<notin> insert (display_name m) seen \<union> display_name ` set (take i ms))
            [0..<length ms])"
      unfolding filter_map comp_def by (rule arg_cong [where f = "map Suc"], rule filter_cong) auto
    then show ?thesis by (simp add: comp_def)
  qed
  show ?case
  proof (cases "display_name m \<in> seen")
    case True
    then have "insert (display_name m) seen = seen" by auto
    with True show ?thesis
      unfolding upt dedupe_Cons using shift Cons [of seen] by simp
  next
    case False
    then show ?thesis
      unfolding upt dedupe_Cons using shift Cons [of "insert (display_name m) seen"] by simp
  qed
qed

lemma dedupe_set: "display_name ` set (dedupe seen [] ms) = display_name ` set ms - seen"
proof (induction ms arbitrary: seen)
  case Nil
  then show ?case by simp
next
  case (Cons m ms)
  show ?case
    unfolding dedupe_Cons using Cons [of seen] Cons [of "insert (display_name m) seen"] by auto
qed

lemma dedupe_distinct: "distinct (map display_name (dedupe seen [] ms))"
proof (induction ms arbitrary: seen)
  case Nil
  then show ?case by simp
next
  case (Cons m ms)
  show ?case
    unfolding dedupe_Cons
    using Cons [of seen] Cons [of "insert (display_name m) seen"]
      dedupe_set [of "insert (display_name m) seen" ms]
    by auto
qed

lemma dedupe_subseq: "subseq (dedupe seen [] ms) ms"
proof (induction ms arbitrary: seen)
  case Nil
  then show ?case by simp
next
  case (Cons m ms)
  show ?case
    unfolding dedupe_Cons
    using Cons [of seen] Cons [of "insert (display_name m) seen"] by auto
qed

lemma dedupe_subset: "set (dedupe seen [] ms) \<subseteq> set ms"
proof (induction ms arbitrary: seen)
  case Nil
  then show ?case by simp
next
  case (Cons m ms)
  show ?case
    unfolding dedupe_Cons
    using Cons [of seen] Cons [of "insert (display_name m) seen"] by auto
qed

lemma dedupe_Nil_iff: "dedupe {} [] ms = [] \<longleftrightarrow> ms = []"
proof (cases ms)
  case Nil
  then show ?thesis by simp
next
  case (Cons m ms')
  then show ?thesis by (simp add: dedupe_Cons del: dedupe.simps)
qed

text \<open>
  Claim C6. Deduplicating a list of results by \<open>display_name\<close> keeps exactly the first
  occurrence of each distinct string, in the order of the input; no two results of the
  output have the same string, and every string of the input is still there.
\<close>

theorem dedupe_keeps_first_occurrences:
  "dedupe {} [] mapped = firstOccurrences mapped \<and>
   subseq (dedupe {} [] mapped) mapped \<and>
   distinct (map display_name (dedupe {} [] mapped)) \<and>
   display_name ` set (dedupe {} [] mapped) = display_name ` set mapped"
  using dedupe_indices [of "{}" mapped] dedupe_subseq [of "{}" mapped]
    dedupe_distinct [of "{}" mapped] dedupe_set [of "{}" mapped]
  by (simp add: firstOccurrences_def)

theorem dedupe_keeps_first_occurrences_witness:
  "map display_name
     (dedupe {} []
        [\<lparr>display_name = js ''A 1, Ze'', lat = js ''1'', lon = js ''1'', address = None\<rparr>,
         \<lparr>display_name = js ''B 2, Ze'', lat = js ''2'', lon = js ''2'', address = None\<rparr>,
         \<lparr>display_name = js ''A 1, Ze'', lat = js ''3'', lon = js ''3'', address = None\<rparr>]) =
   [js ''A 1, Ze'', js ''B 2, Ze''] \<and>
   map lat
     (dedupe {} []
        [\<lparr>display_name = js ''A 1, Ze'', lat = js ''1'', lon = js ''1'', address = None\<rparr>,
         \<lparr>display_name = js ''B 2, Ze'', lat = js ''2'', lon = js ''2'', address = None\<rparr>,
         \<lparr>display_name = js ''A 1, Ze'', lat = js ''3'', lon = js ''3'', address = None\<rparr>]) =
   [js ''1'', js ''2'']"
proof -
  let ?ms = "[\<lparr>display_name = js ''A 1, Ze'', lat = js ''1'', lon = js ''1'', address = None\<rparr>,
         \<lparr>display_name = js ''B 2, Ze'', lat = js ''2'', lon = js ''2'', address = None\<rparr>,
         \<lparr>display_name = js ''A 1, Ze'', lat = js ''3'', lon = js ''3'', address = None\<rparr>]"
  have f: "map display_name (firstOccurrences ?ms) = [js ''A 1, Ze'', js ''B 2, Ze'']"
    by code_simp
  have g: "map lat (firstOccurrences ?ms) = [js ''1'', js ''2'']"
    by code_simp
  from dedupe_keeps_first_occurrences [of ?ms] f g show ?thesis by simp
qed


text \<open>
  Claim C4. With a non-empty hint number, the suggestions are the deduplicated formatted
  results that contain the number as a contiguous substring; when no formatted result
  contains it, they are the deduplicated unfiltered formatted results. So the suggestions
  are empty only when there was no formatted result at all.
\<close>

theorem number_filter_falls_back:
  assumes "number p = Some n" and "n \<noteq> []"
  shows "(let formatted = formatAll p (filter hasRoad results);
              kept = filter (\<lambda>s. includes_js (display_name s) n) formatted
          in suggestionsFor p results = dedupe {} [] (if kept = [] then formatted else kept) \<and>
             (kept \<noteq> [] \<longrightarrow>
                (\<forall>s \<in> set (suggestionsFor p results). \<exists>pre suf. display_name s = pre @ n @ suf)) \<and>
             (suggestionsFor p results = [] \<longleftrightarrow> formatted = []))"
proof -
  let ?formatted = "formatAll p (filter hasRoad results)"
  let ?kept = "filter (\<lambda>s. includes_js (display_name s) n) ?formatted"
  have len: "length (filter hasRoad results) = 0 \<longleftrightarrow> ?formatted = []"
    by (simp add: formatAll_def)
  have eq: "suggestionsFor p results = dedupe {} [] (if ?kept = [] then ?formatted else ?kept)"
    using assms len by (auto simp: suggestionsFor_def numberFilter_def Let_def)
  have sub: "\<forall>s \<in> set (suggestionsFor p results). \<exists>pre suf. display_name s = pre @ n @ suf"
    if "?kept \<noteq> []"
  proof
    fix s assume "s \<in> set (suggestionsFor p results)"
    with that eq have "s \<in> set (dedupe {} [] ?kept)" by simp
    then have "s \<in> set ?kept" using dedupe_subset [of "{}" ?kept] by blast
    then have "includes_js (display_name s) n" by simp
    then show "\<exists>pre suf. display_name s = pre @ n @ suf" by (simp add: includes_js_iff)
  qed
  have empty: "suggestionsFor p results = [] \<longleftrightarrow> ?formatted = []"
    unfolding eq by (auto simp: dedupe_Nil_iff)
  from eq sub empty show ?thesis by (simp add: Let_def)
qed

theorem number_filter_falls_back_witness:
  "number \<lparr>street = js ''Calle 844'', number = Some (js ''1518'')\<rparr> = Some (js ''1518'') \<and>
   js ''1518'' \<noteq> [] \<and>
   map display_name
     (suggestionsFor \<lparr>street = js ''Calle 844'', number = Some (js ''1518'')\<rparr>
        [\<lparr>display_name = js ''Ze, Buenos Aires, Argentina'', lat = js ''-34.6'', lon = js ''-58.4'',
            address = Some lopez\<rparr>,
         \<lparr>display_name = js ''Plaza, Ze'', lat = js ''-34.7'', lon = js ''-58.5'',
            address = Some noFields\<rparr>]) =
   [js ''Calle 844 1518, Ze, Buenos Aires'']"
proof -
  let ?p = "\<lparr>street = js ''Calle 844'', number = Some (js ''1518'')\<rparr>"
  let ?rs = "[\<lparr>display_name = js ''Ze, Buenos Aires, Argentina'', lat = js ''-34.6'', lon = js ''-58.4'',
            address = Some lopez\<rparr>,
         \<lparr>display_name = js ''Plaza, Ze'', lat = js ''-34.7'', lon = js ''-58.5'',
            address = Some noFields\<rparr>]"
  have 1: "number ?p = Some (js ''1518'')" by simp
  have 2: "js ''1518'' \<noteq> []" by (simp add: js_def)
  have e: "map display_name
      (dedupe {} []
        (if filter (\<lambda>s. includes_js (display_name s) (js ''1518'')) (formatAll ?p (filter hasRoad ?rs)) = []
         then formatAll ?p (filter hasRoad ?rs)
         else filter (\<lambda>s. includes_js (display_name s) (js ''1518'')) (formatAll ?p (filter hasRoad ?rs)))) =
      [js ''Calle 844 1518, Ze, Buenos Aires'']"
    by code_simp
  from number_filter_falls_back [OF 1 2, of ?rs, unfolded Let_def]
  have "suggestionsFor ?p ?rs =
      dedupe {} []
        (if filter (\<lambda>s. includes_js (display_name s) (js ''1518'')) (formatAll ?p (filter hasRoad ?rs)) = []
         then formatAll ?p (filter hasRoad ?rs)
         else filter (\<lambda>s. includes_js (display_name s) (js ''1518'')) (formatAll ?p (filter hasRoad ?rs)))"
    by (rule conjunct1)
  with e 1 2 show ?thesis by simp
qed

section \<open>Where the regex-based variant differs\<close>

text \<open>
  The regex-based tokenizer also returns for every input and agrees with the token-scanning
  one on \<^verbatim>\<open>"Okinawa 1518, Ze"\<close>, \<^verbatim>\<open>"Ruta 8 1518"\<close> and \<^verbatim>\<open>"Main"\<close>. On \<^verbatim>\<open>"9 de Julio"\<close> it finds no
  match and removes everything from the first digit on, so the street is empty. The gated
  formatter keeps the record's road and house number when the hint street does not match
  the road.
\<close>

lemma regex_variant_returns: "\<exists>p. extractStreetAndNumber_regex input = Inr p"
  by (simp add: extractStreetAndNumber_regex_def withoutCommas_eq split: option.split prod.split)

lemma regex_variant_examples:
  "extractStreetAndNumber_regex (js ''Okinawa 1518, Ze'') = Inr \<lparr>street = js ''Okinawa'', number = Some (js ''1518'')\<rparr>"
  "extractStreetAndNumber_regex (js ''Ruta 8 1518'') = Inr \<lparr>street = js ''Ruta 8'', number = Some (js ''1518'')\<rparr>"
  "extractStreetAndNumber_regex (js ''Main'') = Inr \<lparr>street = js ''Main'', number = None\<rparr>"
  by code_simp+

lemma regex_variant_leading_number:
  "extractStreetAndNumber_regex (js ''9 de Julio'') = Inr \<lparr>street = [], number = None\<rparr>"
  by code_simp

lemma gated_variant_keeps_record_number:
  assumes "toLowerCase (js ''Calle 844'') = js ''calle 844''"
    and "toLowerCase (js ''Av. Jos'' @ [0xE9] @ js '' Andr'' @ [0xE9] @ js ''s L'' @ [0xF3] @ js ''pez'') =
         js ''av. jos'' @ [0xE9] @ js '' andr'' @ [0xE9] @ js ''s l'' @ [0xF3] @ js ''pez''"
  shows "formatArgentinianAddress_gated toLowerCase
           \<lparr>display_name = js ''Ze, Buenos Aires, Argentina'', lat = js ''-34.6'', lon = js ''-58.4'',
              address = Some lopez\<rparr>
           (Some \<lparr>street = js ''Calle 844'', number = Some (js ''1518'')\<rparr>) =
         js ''Av. Jos'' @ [0xE9] @ js '' Andr'' @ [0xE9] @ js ''s L'' @ [0xF3] @ js ''pez 200, Ze, Buenos Aires''"
proof -
  have 1: "\<not> includes_js (js ''av. jos'' @ [0xE9] @ js '' andr'' @ [0xE9] @ js ''s l'' @ [0xF3] @ js ''pez'') (js ''calle 844'')"
    by code_simp
  have 2: "\<not> includes_js (js ''calle 844'') (js ''av. jos'' @ [0xE9] @ js '' andr'' @ [0xE9] @ js ''s l'' @ [0xF3] @ js ''pez'')"
    by code_simp
  have parts: "addressParts_gated toLowerCase lopez (Some \<lparr>street = js ''Calle 844'', number = Some (js ''1518'')\<rparr>) =
      [js ''Av. Jos'' @ [0xE9] @ js '' Andr'' @ [0xE9] @ js ''s L'' @ [0xF3] @ js ''pez'' @ js '' '' @ js ''200'',
       js ''Ze'', js ''Buenos Aires'']"
    using assms 1 2
    by (simp add: addressParts_gated_def lopez_def Let_def or_empty_def or_js_def truthy_def
        injectedNumber_def injectedStreet_def) (simp add: js_def)
  have "trim (join (js '', '')
      [js ''Av. Jos'' @ [0xE9] @ js '' Andr'' @ [0xE9] @ js ''s L'' @ [0xF3] @ js ''pez'' @ js '' '' @ js ''200'',
       js ''Ze'', js ''Buenos Aires'']) =
     js ''Av. Jos'' @ [0xE9] @ js '' Andr'' @ [0xE9] @ js ''s L'' @ [0xF3] @ js ''pez 200, Ze, Buenos Aires''"
    by code_simp
  moreover have "js ''Av. Jos'' @ [0xE9] @ js '' Andr'' @ [0xE9] @ js ''s L'' @ [0xF3] @ js ''pez 200, Ze, Buenos Aires'' \<noteq> []"
    by (simp add: js_def)
  ultimately show ?thesis
    by (simp add: formatArgentinianAddress_gated_def parts Let_def del: join.simps)
qed

end
